theory Spec2Isabelle
  imports Main "HOL-Library.AList"
begin

section \<open>Text\<close>


definition lower_char :: "char \<Rightarrow> char" where
  "lower_char c =
     (case map_of (zip ''ABCDEFGHIJKLMNOPQRSTUVWXYZ'' ''abcdefghijklmnopqrstuvwxyz'') c of
        Some l \<Rightarrow> l
      | None \<Rightarrow> c)"

definition lower :: "string \<Rightarrow> string" where
  "lower s = map lower_char s"

definition endswith :: "string \<Rightarrow> string \<Rightarrow> bool" where
  "endswith s suffix = (length suffix \<le> length s \<and> drop (length s - length suffix) s = suffix)"

section \<open>Regular expressions of the \<open>re\<close> module\<close>

text \<open>
  The fragment of Python's regular expressions that the program uses: single characters
  and the classes \<open>\d\<close>, \<open>\s\<close> and \<open>.\<close> (the flag of \<open>Dot\<close> is \<open>re.DOTALL\<close>), greedy and
  lazy repetition of a class, concatenation, alternation, a capturing group and the
  anchors \<open>^\<close> and \<open>$\<close> without \<open>re.MULTILINE\<close>.
\<close>

datatype cls = Lit char | Digit | Space | Dot bool

fun accepts :: "cls \<Rightarrow> char \<Rightarrow> bool" where
  "accepts (Lit a) c = (c = a)"
| "accepts Digit c = (c \<in> set ''0123456789'')"
| "accepts Space c = (c \<in> set [CHR '' '', CHR 0x09, CHR 0x0A, CHR 0x0B, CHR 0x0C, CHR 0x0D,
                                  CHR 0x1C, CHR 0x1D, CHR 0x1E, CHR 0x1F])"
| "accepts (Dot dotall) c = (dotall \<or> c \<noteq> CHR 0x0A)"

datatype re = Atom cls | Star cls | Lazy cls | Cat re re | Alt re re | Group re | Bol | Eol | Eps

text \<open>
  A matcher state is the offset reached in the subject, the text still to be read and the
  groups captured so far. \<open>ms r st\<close> lists every way \<open>r\<close> can match from \<open>st\<close>, in the order
  in which a backtracking matcher tries them, so its head is the match Python reports.
  \<open>$\<close> matches at the end of the subject and before a line feed that ends it.
\<close>

type_synonym mstate = "nat \<times> string \<times> string list"

fun ms :: "re \<Rightarrow> mstate \<Rightarrow> mstate list" where
  "ms (Atom c) (n, [], g) = []"
| "ms (Atom c) (n, x # xs, g) = (if accepts c x then [(Suc n, xs, g)] else [])"
| "ms (Star c) (n, [], g) = [(n, [], g)]"
| "ms (Star c) (n, x # xs, g) =
     (if accepts c x then ms (Star c) (Suc n, xs, g) else []) @ [(n, x # xs, g)]"
| "ms (Lazy c) (n, [], g) = [(n, [], g)]"
| "ms (Lazy c) (n, x # xs, g) =
     (n, x # xs, g) # (if accepts c x then ms (Lazy c) (Suc n, xs, g) else [])"
| "ms (Cat a b) st = concat (map (ms b) (ms a st))"
| "ms (Alt a b) st = ms a st @ ms b st"
| "ms (Group a) (n, s, g) =
     map (\<lambda>(n', s', g'). (n', s', g' @ [take (n' - n) s])) (ms a (n, s, g))"
| "ms Bol (n, s, g) = (if n = 0 then [(n, s, g)] else [])"
| "ms Eol (n, s, g) = (if s = [] \<or> s = [CHR 0x0A] then [(n, s, g)] else [])"
| "ms Eps st = [st]"

definition seq :: "re list \<Rightarrow> re" where
  "seq rs = foldr Cat rs Eps"

definition lits :: "string \<Rightarrow> re" where
  "lits s = seq (map (\<lambda>c. Atom (Lit c)) s)"

definition rep :: "nat \<Rightarrow> cls \<Rightarrow> re" where
  "rep k c = seq (replicate k (Atom c))"

definition first :: "'a list \<Rightarrow> 'a option" where
  "first xs = (case xs of [] \<Rightarrow> None | x # _ \<Rightarrow> Some x)"

definition re_match :: "re \<Rightarrow> string \<Rightarrow> mstate option" where
  "re_match r s = first (ms r (0, s, []))"

text \<open>\<open>re.search\<close>: the first offset at which the pattern matches, with the match found there.\<close>

fun search_from :: "re \<Rightarrow> nat \<Rightarrow> string \<Rightarrow> (nat \<times> mstate) option" where
  "search_from r n s =
     (case first (ms r (n, s, [])) of
        Some m \<Rightarrow> Some (n, m)
      | None \<Rightarrow> (case s of [] \<Rightarrow> None | _ # xs \<Rightarrow> search_from r (Suc n) xs))"

declare search_from.simps [simp del]

definition re_search :: "re \<Rightarrow> string \<Rightarrow> (nat \<times> mstate) option" where
  "re_search r s = search_from r 0 s"

lemma ms_offsets:
  "(n', s', g') \<in> set (ms r (n, s, g)) \<Longrightarrow> n \<le> n' \<and> n' + length s' = n + length s"
proof (induction r "(n, s, g)" arbitrary: n s g n' s' g' rule: ms.induct)
  case (7 a b)
  then obtain m t h where mid: "(m, t, h) \<in> set (ms a (n, s, g))"
    and fin: "(n', s', g') \<in> set (ms b (m, t, h))"
    by auto
  from "7.hyps"(1) [OF mid] have "n \<le> m \<and> m + length t = n + length s" .
  moreover from "7.hyps"(2) [OF mid fin] have "m \<le> n' \<and> n' + length s' = m + length t" .
  ultimately show ?case by simp
next
  case (4 c n x xs g)
  then show ?case
    by (cases "accepts c x") (fastforce split: if_splits)+
next
  case (6 c n x xs g)
  then show ?case
    by (cases "accepts c x") (fastforce split: if_splits)+
qed (auto split: if_splits)

lemma search_from_offsets:
  "search_from r n s = Some (a, b, rest, g) \<Longrightarrow>
     n \<le> a \<and> a \<le> b \<and> a \<le> n + length s \<and> b + length rest = n + length s"
proof (induction r n s rule: search_from.induct)
  case (1 r n s)
  from "1.prems" have unfolded:
    "(case first (ms r (n, s, [])) of
        Some m \<Rightarrow> Some (n, m)
      | None \<Rightarrow> (case s of [] \<Rightarrow> None | _ # xs \<Rightarrow> search_from r (Suc n) xs)) =
     Some (a, b, rest, g)"
    by (simp only: search_from.simps [of r n s])
  show ?case
  proof (cases "first (ms r (n, s, []))")
    case (Some m)
    with unfolded have m: "m = (b, rest, g)" "a = n" by simp_all
    from Some have "m \<in> set (ms r (n, s, []))"
      by (auto simp: first_def split: list.splits)
    with m ms_offsets [of b rest g r n s "[]"] show ?thesis by simp
  next
    case None
    show ?thesis
    proof (cases s)
      case Nil
      with None unfolded show ?thesis by simp
    next
      case (Cons x xs)
      with None unfolded have "search_from r (Suc n) xs = Some (a, b, rest, g)"
        by simp
      from "1.IH" [OF None Cons this] Cons show ?thesis by simp
    qed
  qed
qed

text \<open>
  \<open>re.findall\<close> for a pattern with at most one group: the matches from left to right,
  each search resuming where the previous match ended; an item is the text of the group,
  or of the whole match when the pattern has no group. After an empty match the scan
  moves one character on.
\<close>

function findall_from :: "re \<Rightarrow> nat \<Rightarrow> string \<Rightarrow> string list" where
  "findall_from r n s =
     (case search_from r n s of
        None \<Rightarrow> []
      | Some (a, b, rest, g) \<Rightarrow>
          (case g of [] \<Rightarrow> take (b - a) (drop (a - n) s) | c # _ \<Rightarrow> c) #
          (if a < b then findall_from r b rest
           else (case rest of [] \<Rightarrow> [] | _ # xs \<Rightarrow> findall_from r (Suc b) xs)))"
  by pat_completeness auto
termination
proof (relation "measure (\<lambda>(r, n, s). length s)")
  show "wf (measure (\<lambda>(r, n, s). length s))" by simp
next
  fix r n s x2 a y b ya rest g
  assume "search_from r n s = Some x2" "(a, y) = x2" "(b, ya) = y" "(rest, g) = ya" "a < b"
  then have "search_from r n s = Some (a, b, rest, g)" by simp
  from search_from_offsets [OF this] \<open>a < b\<close>
  show "((r, b, rest), r, n, s) \<in> measure (\<lambda>(r, n, s). length s)" by simp
next
  fix r n s x2 a y b ya rest g x21 x22
  assume "search_from r n s = Some x2" "(a, y) = x2" "(b, ya) = y" "(rest, g) = ya"
    "\<not> a < b" "rest = x21 # x22"
  then have "search_from r n s = Some (a, b, x21 # x22, g)" by simp
  from search_from_offsets [OF this]
  show "((r, Suc b, x22), r, n, s) \<in> measure (\<lambda>(r, n, s). length s)" by simp
qed

declare findall_from.simps [simp del]

definition re_findall :: "re \<Rightarrow> string \<Rightarrow> string list" where
  "re_findall r s = findall_from r 0 s"

section \<open>Tag Extractor\<close>

text \<open>
  \<open>tag_pattern1\<close> is \<^verbatim>\<open>\*\*\*Tags:\*\*\s*(\[\[.*?\]\].*?)(?:\n|$)\<close>, which the program
  searches with \<open>re.DOTALL\<close>; \<open>tag_pattern2\<close> is \<^verbatim>\<open>\[\[(.*?)\]\]\<close>, used without that flag.
\<close>

definition tag_pattern1 :: re where
  "tag_pattern1 =
     seq [lits ''***Tags:**'', Star Space,
          Group (seq [lits ''[['', Lazy (Dot True), lits '']]'', Lazy (Dot True)]),
          Alt (Atom (Lit CHR 0x0A)) Eol]"

definition tag_pattern2 :: re where
  "tag_pattern2 = seq [lits ''[['', Group (Lazy (Dot False)), lits '']]'']"

text \<open>The tags of a document's content: the body of \<open>extract_tags\<close> once the file is read.\<close>

definition tags_of_content :: "string \<Rightarrow> string list" where
  "tags_of_content content =
     (case re_search tag_pattern1 content of
        Some (_, _, _, groups) \<Rightarrow> re_findall tag_pattern2 (hd groups)
      | None \<Rightarrow> re_findall tag_pattern2 content)"

section \<open>Date-Tag Filter\<close>

definition date_patterns :: "re list" where
  "date_patterns =
     [seq [Bol, rep 4 Digit, lits ''-'', rep 2 Digit, lits ''-'', rep 2 Digit, Eol],
      seq [Bol, rep 4 Digit, lits ''-'', rep 2 Digit, Eol],
      seq [Bol, rep 2 Digit, lits ''-'', rep 2 Digit, lits ''-'', rep 4 Digit, Eol],
      seq [Bol, rep 2 Digit, lits ''-'', rep 2 Digit, lits ''-'', rep 2 Digit, Eol]]"

definition is_date_tag :: "string \<Rightarrow> bool" where
  "is_date_tag tag = list_ex (\<lambda>pattern. re_match pattern tag \<noteq> None) date_patterns"




section \<open>Best-Match Selector\<close>

record folder_info =
  path :: string
  depth :: nat

type_synonym folder_index = "(string \<times> folder_info) list"

text \<open>
  A dictionary is kept as an association list in insertion order, the order in which
  \<open>items()\<close> iterates. \<open>list.sort(key, reverse=True)\<close> reverses the list, sorts it stably
  and reverses it again, so equal keys keep their order.
\<close>

definition sort_reverse :: "('a \<Rightarrow> nat) \<Rightarrow> 'a list \<Rightarrow> 'a list" where
  "sort_reverse key xs = rev (sort_key key (rev xs))"

definition non_date_tags :: "string list \<Rightarrow> string list" where
  "non_date_tags tags = filter (\<lambda>tag. \<not> is_date_tag tag) tags"

definition find_matches :: "string list \<Rightarrow> folder_index \<Rightarrow> (folder_info \<times> string) list" where
  "find_matches tags folders =
     concat (map (\<lambda>tag.
        concat (map (\<lambda>(folder_name, info).
          if lower tag = folder_name then [(info, ''exact'')] else []) folders)) tags)"

definition find_best_matching_folder :: "string list \<Rightarrow> folder_index \<Rightarrow> string option" where
  "find_best_matching_folder tags folders =
     (if non_date_tags tags = [] then None
      else let matches = find_matches (non_date_tags tags) folders in
        if matches = [] then None
        else (case sort_reverse (\<lambda>x. depth (fst x)) matches of
                [] \<Rightarrow> None
              | best # _ \<Rightarrow> Some (path (fst best))))"

section \<open>Double-bracket tokens, read directly\<close>









section \<open>Continuations of a match\<close>

text \<open>
  Names for what follows a point of a match, used to follow the matcher through the two tag
  patterns: the first result of continuing from each state of a list, the continuation
  that closes a group, the tail \<^verbatim>\<open>(?:\n|$)\<close> of the first pattern and the part of its group
  from the closing brackets on.
\<close>

definition first_of :: "(mstate \<Rightarrow> mstate list) \<Rightarrow> mstate list \<Rightarrow> mstate option" where
  "first_of F xs = first (concat (map F xs))"





section \<open>Paths of \<open>posixpath\<close>\<close>

text \<open>
  The program is run on a POSIX system: \<open>os.sep\<close> is the slash and \<open>os.path\<close> is
  \<open>posixpath\<close>, whose functions work on the text of a path alone.
\<close>

fun split_on :: "char \<Rightarrow> string \<Rightarrow> string list" where
  "split_on c [] = [[]]"
| "split_on c (x # xs) =
     (if x = c then [] # split_on c xs
      else (case split_on c xs of p # ps \<Rightarrow> (x # p) # ps | [] \<Rightarrow> [[x]]))"

fun join_with :: "string \<Rightarrow> string list \<Rightarrow> string" where
  "join_with s [] = []"
| "join_with s [p] = p"
| "join_with s (p # ps) = p @ s @ join_with s ps"

fun str_contains :: "string \<Rightarrow> string \<Rightarrow> bool" where
  "str_contains [] sub = (sub = [])"
| "str_contains (x # xs) sub = (take (length sub) (x # xs) = sub \<or> str_contains xs sub)"

fun str_nat :: "nat \<Rightarrow> string" where
  "str_nat n =
     (if n < 10 then [''0123456789'' ! n]
      else str_nat (n div 10) @ [''0123456789'' ! (n mod 10)])"

declare str_nat.simps [simp del]

definition isabs :: "string \<Rightarrow> bool" where
  "isabs p = (take 1 p = ''/'')"

definition path_join :: "string \<Rightarrow> string \<Rightarrow> string" where
  "path_join a b =
     (if take 1 b = ''/'' then b
      else if a = [] \<or> last a = CHR ''/'' then a @ b
      else a @ ''/'' @ b)"

definition basename :: "string \<Rightarrow> string" where
  "basename p = rev (takeWhile (\<lambda>c. c \<noteq> CHR ''/'') (rev p))"

definition dirname :: "string \<Rightarrow> string" where
  "dirname p =
     (let head = rev (dropWhile (\<lambda>c. c \<noteq> CHR ''/'') (rev p)) in
      if head \<noteq> [] \<and> head \<noteq> replicate (length head) (CHR ''/'')
      then rev (dropWhile (\<lambda>c. c = CHR ''/'') (rev head))
      else head)"

text \<open>\<open>str.rfind\<close> of a single character: the last index at which it stands, or \<open>-1\<close>.\<close>

definition rfind :: "char \<Rightarrow> string \<Rightarrow> int" where
  "rfind c p =
     (if c \<in> set p then int (length p) - 1 - int (length (takeWhile (\<lambda>x. x \<noteq> c) (rev p)))
      else - 1)"

definition splitext :: "string \<Rightarrow> string \<times> string" where
  "splitext p =
     (let sepIndex = rfind (CHR ''/'') p; dotIndex = rfind (CHR ''.'') p in
      if sepIndex < dotIndex \<and>
         list_ex (\<lambda>c. c \<noteq> CHR ''.'')
           (take (nat (dotIndex - (sepIndex + 1))) (drop (nat (sepIndex + 1)) p))
      then (take (nat dotIndex) p, drop (nat dotIndex) p)
      else (p, []))"

definition norm_step :: "nat \<Rightarrow> string list \<Rightarrow> string \<Rightarrow> string list" where
  "norm_step initial_slashes new_comps part =
     (if part = [] \<or> part = ''.'' then new_comps
      else if part \<noteq> ''..'' \<or> (initial_slashes = 0 \<and> new_comps = []) \<or>
              (new_comps \<noteq> [] \<and> last new_comps = ''..'')
      then new_comps @ [part]
      else if new_comps \<noteq> [] then butlast new_comps
      else new_comps)"

definition normpath :: "string \<Rightarrow> string" where
  "normpath p =
     (if p = [] then ''.''
      else
        let initial_slashes =
              (if take 1 p = ''/'' then (if take 2 p = ''//'' \<and> take 3 p \<noteq> ''///'' then 2 else 1)
               else 0);
            comps = foldl (norm_step initial_slashes) [] (split_on (CHR ''/'') p);
            joined = replicate initial_slashes (CHR ''/'') @ join_with ''/'' comps
        in if joined = [] then ''.'' else joined)"

definition abspath :: "string \<Rightarrow> string \<Rightarrow> string" where
  "abspath cwd p = normpath (if isabs p then p else path_join cwd p)"

fun common_prefix_length :: "string list \<Rightarrow> string list \<Rightarrow> nat" where
  "common_prefix_length (x # xs) (y # ys) = (if x = y then Suc (common_prefix_length xs ys) else 0)"
| "common_prefix_length _ _ = 0"

text \<open>
  \<open>relpath\<close> raises \<open>ValueError\<close> for an empty path only; the program passes it the joined
  path of a directory entry, which is never empty, so the model leaves that case out.
\<close>

definition relpath :: "string \<Rightarrow> string \<Rightarrow> string \<Rightarrow> string" where
  "relpath cwd p start =
     (let start_list = filter (\<lambda>x. x \<noteq> []) (split_on (CHR ''/'') (abspath cwd start));
          path_list = filter (\<lambda>x. x \<noteq> []) (split_on (CHR ''/'') (abspath cwd p));
          i = common_prefix_length start_list path_list;
          rel_list = replicate (length start_list - i) ''..'' @ drop i path_list
      in case rel_list of [] \<Rightarrow> ''.'' | r # rs \<Rightarrow> foldl path_join r rs)"

section \<open>The file system\<close>

text \<open>
  A file system is a tree of directories and regular files, with the working directory
  of the process. A file carries its text, or nothing when it cannot be opened or decoded;
  a directory carries whether it may be listed, whether entries may be added to and removed
  from it, and its entries in the order in which the system lists them. Symbolic links and
  search permission are not modelled.
\<close>

datatype node = File "string option" | Dir bool bool "(string \<times> node) list"

record fs =
  fs_root :: node
  fs_cwd :: string

datatype os_error =
  FileNotFoundError | NotADirectoryError | IsADirectoryError | PermissionError
  | UnicodeError | ShutilError

fun is_dir :: "node \<Rightarrow> bool" where
  "is_dir (Dir _ _ _) = True"
| "is_dir (File _) = False"

fun node_at :: "node \<Rightarrow> string list \<Rightarrow> node option" where
  "node_at n [] = Some n"
| "node_at (File _) (c # cs) = None"
| "node_at (Dir _ _ es) (c # cs) =
     (case map_of es c of Some child \<Rightarrow> node_at child cs | None \<Rightarrow> None)"

text \<open>
  Resolution of the components of a path from the root: \<open>acc\<close> is the canonical place
  reached, which must be a directory whenever a component is still to be read.
\<close>

fun canon :: "node \<Rightarrow> string list \<Rightarrow> string list \<Rightarrow> string list option" where
  "canon rt acc [] = Some acc"
| "canon rt acc (c # cs) =
     (case node_at rt acc of
        Some (Dir _ _ _) \<Rightarrow>
          if c = [] \<or> c = ''.'' then canon rt acc cs
          else if c = ''..'' then canon rt (butlast acc) cs
          else canon rt (acc @ [c]) cs
      | _ \<Rightarrow> None)"

definition resolve :: "fs \<Rightarrow> string \<Rightarrow> (string list \<times> node) option" where
  "resolve s p =
     (if p = [] then None
      else case canon (fs_root s) []
                  (split_on (CHR ''/'') (if isabs p then p else path_join (fs_cwd s) p)) of
        Some place \<Rightarrow> map_option (Pair place) (node_at (fs_root s) place)
      | None \<Rightarrow> None)"

definition path_exists :: "fs \<Rightarrow> string \<Rightarrow> bool" where
  "path_exists s p = (resolve s p \<noteq> None)"

definition isfile :: "fs \<Rightarrow> string \<Rightarrow> bool" where
  "isfile s p = (case resolve s p of Some (_, File _) \<Rightarrow> True | _ \<Rightarrow> False)"

definition isdir :: "fs \<Rightarrow> string \<Rightarrow> bool" where
  "isdir s p = (case resolve s p of Some (_, Dir _ _ _) \<Rightarrow> True | _ \<Rightarrow> False)"

definition scandir :: "node option \<Rightarrow> os_error + (string \<times> node) list" where
  "scandir n =
     (case n of
        None \<Rightarrow> Inl FileNotFoundError
      | Some (File _) \<Rightarrow> Inl NotADirectoryError
      | Some (Dir readable _ es) \<Rightarrow> if readable then Inr es else Inl PermissionError)"

definition listdir :: "fs \<Rightarrow> string \<Rightarrow> os_error + string list" where
  "listdir s p =
     (case scandir (map_option snd (resolve s p)) of
        Inl e \<Rightarrow> Inl e
      | Inr es \<Rightarrow> Inr (map fst es))"

definition read_text :: "fs \<Rightarrow> string \<Rightarrow> os_error + string" where
  "read_text s p =
     (case resolve s p of
        None \<Rightarrow> Inl FileNotFoundError
      | Some (_, Dir _ _ _) \<Rightarrow> Inl IsADirectoryError
      | Some (_, File None) \<Rightarrow> Inl PermissionError
      | Some (_, File (Some content)) \<Rightarrow> Inr content)"

text \<open>Writing an entry of a directory (\<open>Some\<close>) or removing it (\<open>None\<close>), at a canonical place.\<close>

fun set_entry :: "string \<Rightarrow> node option \<Rightarrow> (string \<times> node) list \<Rightarrow> (string \<times> node) list" where
  "set_entry name None es = filter (\<lambda>e. fst e \<noteq> name) es"
| "set_entry name (Some n) [] = [(name, n)]"
| "set_entry name (Some n) (e # es) =
     (if fst e = name then (name, n) # es else e # set_entry name (Some n) es)"

fun put_at :: "node \<Rightarrow> string list \<Rightarrow> node option \<Rightarrow> node"
  and put_in :: "(string \<times> node) list \<Rightarrow> string \<Rightarrow> string list \<Rightarrow> node option \<Rightarrow> (string \<times> node) list" where
  "put_at (File t) place v = File t"
| "put_at (Dir r w es) [] v = Dir r w es"
| "put_at (Dir r w es) [name] v = Dir r w (set_entry name v es)"
| "put_at (Dir r w es) (name # c # cs) v = Dir r w (put_in es name (c # cs) v)"
| "put_in [] name place v = []"
| "put_in ((k, child) # es) name place v =
     (if k = name then (k, put_at child place v) # es else (k, child) # put_in es name place v)"

definition writable_dir :: "node option \<Rightarrow> bool" where
  "writable_dir n = (case n of Some (Dir _ w _) \<Rightarrow> w | _ \<Rightarrow> False)"

text \<open>
  The place a path names whether or not its last component exists: the canonical place of
  its directory with that component added.
\<close>

definition new_place :: "fs \<Rightarrow> string \<Rightarrow> string list option" where
  "new_place s p =
     (if basename p = [] \<or> basename p = ''.'' \<or> basename p = ''..'' then None
      else case resolve s (if dirname p = [] then ''.'' else dirname p) of
        Some (place, Dir _ _ _) \<Rightarrow> Some (place @ [basename p])
      | _ \<Rightarrow> None)"

text \<open>
  \<open>os.rename\<close> of a regular file: both directories must allow the change; an existing file
  at the destination is replaced, a directory there is an error.
\<close>

definition os_rename :: "fs \<Rightarrow> string \<Rightarrow> string \<Rightarrow> os_error + fs" where
  "os_rename s src dst =
     (case resolve s src of
        None \<Rightarrow> Inl FileNotFoundError
      | Some (src_place, n) \<Rightarrow>
          (case new_place s dst of
             None \<Rightarrow> Inl FileNotFoundError
           | Some dst_place \<Rightarrow>
               if src_place = [] \<or> \<not> writable_dir (node_at (fs_root s) (butlast src_place)) \<or>
                  \<not> writable_dir (node_at (fs_root s) (butlast dst_place))
               then Inl PermissionError
               else if is_dir n \<or> isdir s dst then Inl IsADirectoryError
               else Inr (s\<lparr>fs_root := put_at (put_at (fs_root s) src_place None) dst_place (Some n)\<rparr>)))"

definition copy2 :: "fs \<Rightarrow> string \<Rightarrow> string \<Rightarrow> os_error + fs" where
  "copy2 s src dst =
     (case read_text s src of
        Inl e \<Rightarrow> Inl e
      | Inr content \<Rightarrow>
          (case new_place s dst of
             None \<Rightarrow> Inl FileNotFoundError
           | Some dst_place \<Rightarrow>
               if isdir s dst then Inl IsADirectoryError
               else if \<not> path_exists s dst \<and> \<not> writable_dir (node_at (fs_root s) (butlast dst_place))
               then Inl PermissionError
               else Inr (s\<lparr>fs_root := put_at (fs_root s) dst_place (Some (File (Some content)))\<rparr>)))"

definition os_unlink :: "fs \<Rightarrow> string \<Rightarrow> os_error + fs" where
  "os_unlink s p =
     (case resolve s p of
        None \<Rightarrow> Inl FileNotFoundError
      | Some (place, n) \<Rightarrow>
          if is_dir n then Inl IsADirectoryError
          else if place = [] \<or> \<not> writable_dir (node_at (fs_root s) (butlast place))
          then Inl PermissionError
          else Inr (s\<lparr>fs_root := put_at (fs_root s) place None\<rparr>))"

text \<open>
  \<open>shutil.move\<close> of a regular file. It returns the file system it leaves behind and the
  error it raises, if any: when the rename is refused it copies the file and then removes
  the source, and the copy stays when the removal fails.
\<close>

definition shutil_move :: "fs \<Rightarrow> string \<Rightarrow> string \<Rightarrow> fs \<times> os_error option" where
  "shutil_move s src dst =
     (let real_dst = (if isdir s dst then path_join dst (basename src) else dst) in
      if isdir s dst \<and> path_exists s real_dst then (s, Some ShutilError)
      else case os_rename s src real_dst of
        Inr s' \<Rightarrow> (s', None)
      | Inl _ \<Rightarrow>
          if isdir s src then (s, Some IsADirectoryError)
          else (case copy2 s src real_dst of
                  Inl e \<Rightarrow> (s, Some e)
                | Inr s' \<Rightarrow>
                    (case os_unlink s' src of
                       Inl e \<Rightarrow> (s', Some e)
                     | Inr s'' \<Rightarrow> (s'', None))))"

text \<open>
  \<open>os.walk\<close>, top down, with no error handler and without following links: a directory that
  cannot be listed (a missing one, a file) raises an error in \<open>scandir\<close> that the walk
  ignores: it yields nothing there and goes on. Each directory is listed once, and
  its subdirectories are walked in the order of the listing under the joined path.
\<close>

fun os_walk_node :: "string \<Rightarrow> node \<Rightarrow> (string \<times> string list \<times> string list) list" where
  "os_walk_node top_dir (File t) = []"
| "os_walk_node top_dir (Dir readable w es) =
     (if \<not> readable then []
      else
        (top_dir, map fst (filter (\<lambda>e. is_dir (snd e)) es),
                  map fst (filter (\<lambda>e. \<not> is_dir (snd e)) es)) #
        concat (map (\<lambda>e. if is_dir (snd e) then os_walk_node (path_join top_dir (fst e)) (snd e)
                          else []) es))"

definition os_walk :: "fs \<Rightarrow> string \<Rightarrow> (string \<times> string list \<times> string list) list" where
  "os_walk s top_dir =
     (case resolve s top_dir of
        None \<Rightarrow> []
      | Some (_, n) \<Rightarrow> os_walk_node top_dir n)"

section \<open>Folder Index Builder\<close>

text \<open>
  \<open>source_dir_global\<close> is the module-level name \<open>source_dir\<close>: it is bound when the file runs
  as a script and unbound when its functions are called from elsewhere. An assignment
  \<open>folders[k] = v\<close> replaces the value of a key in place and adds a new key at the end.
\<close>

definition folder_depth :: "fs \<Rightarrow> string \<Rightarrow> string \<Rightarrow> nat" where
  "folder_depth s folder_path root_dir =
     length (split_on (CHR ''/'') (relpath (fs_cwd s) folder_path root_dir))"

definition index_dirnames ::
  "fs \<Rightarrow> string \<Rightarrow> string \<Rightarrow> string list \<Rightarrow> folder_index \<Rightarrow> folder_index" where
  "index_dirnames s root_dir dirpath dirnames folders =
     foldl (\<lambda>folders name.
        AList.update (lower name)
          \<lparr>path = path_join dirpath name,
           depth = folder_depth s (path_join dirpath name) root_dir\<rparr> folders)
       folders dirnames"


text \<open>The loop of the builder over the triples that a walk yields.\<close>

definition index_walk ::
  "fs \<Rightarrow> string option \<Rightarrow> string \<Rightarrow> (string \<times> string list \<times> string list) list \<Rightarrow> folder_index" where
  "index_walk s source_dir_global root_dir walk =
     foldl (\<lambda>folders (dirpath, dirnames, filenames).
        if source_dir_global = Some dirpath then folders
        else if str_contains dirpath ''.git'' then folders
        else index_dirnames s root_dir dirpath dirnames folders)
       [] walk"

definition get_existing_folders :: "fs \<Rightarrow> string option \<Rightarrow> string \<Rightarrow> folder_index" where
  "get_existing_folders s source_dir_global root_dir =
     index_walk s source_dir_global root_dir (os_walk s root_dir)"



section \<open>Relocator and the run\<close>

definition extract_tags :: "fs \<Rightarrow> string \<Rightarrow> string list" where
  "extract_tags s file_path =
     (case read_text s file_path of
        Inr content \<Rightarrow> tags_of_content content
      | Inl _ \<Rightarrow> [])"

definition suffixed :: "string \<Rightarrow> string \<Rightarrow> nat \<Rightarrow> string \<Rightarrow> string" where
  "suffixed target_folder base_name i ext =
     path_join target_folder (base_name @ ''_'' @ str_nat i @ ext)"

text \<open>
  The loop \<open>while os.path.exists(...): i += 1\<close>. It ends when a name is free; not ending is
  the value \<open>None\<close>.
\<close>

partial_function (option) free_suffix :: "fs \<Rightarrow> string \<Rightarrow> string \<Rightarrow> string \<Rightarrow> nat \<Rightarrow> nat option" where
  "free_suffix s target_folder base_name ext i =
     (if path_exists s (suffixed target_folder base_name i ext)
      then free_suffix s target_folder base_name ext (i + 1)
      else Some i)"

declare free_suffix.simps [code]

definition destination_for :: "fs \<Rightarrow> string \<Rightarrow> string \<Rightarrow> string option" where
  "destination_for s target_folder file_path =
     (let destination = path_join target_folder (basename file_path) in
      if path_exists s destination then
        (case splitext (basename file_path) of
           (base_name, ext) \<Rightarrow>
             map_option (\<lambda>i. suffixed target_folder base_name i ext)
               (free_suffix s target_folder base_name ext 1))
      else Some destination)"

text \<open>
  What a run does to the file system is recorded as it happens: the files it opens to read
  tags and the moves it attempts.
\<close>

datatype event = Read string | Move string string

record run_state =
  files :: fs
  moved_count :: nat
  trace :: "event list"

definition process_file :: "folder_index \<Rightarrow> run_state \<Rightarrow> string \<Rightarrow> run_state option" where
  "process_file existing_folders st file_path =
     (let tags = extract_tags (files st) file_path;
          st = st\<lparr>trace := trace st @ [Read file_path]\<rparr> in
      if tags = [] then Some st
      else case find_best_matching_folder tags existing_folders of
        None \<Rightarrow> Some st
      | Some target_folder \<Rightarrow>
          if normpath (dirname file_path) = normpath target_folder then Some st
          else (case destination_for (files st) target_folder file_path of
                  None \<Rightarrow> None
                | Some destination \<Rightarrow>
                    (case shutil_move (files st) file_path destination of
                       (s', None) \<Rightarrow>
                         Some (st\<lparr>files := s', moved_count := moved_count st + 1,
                                  trace := trace st @ [Move file_path destination]\<rparr>)
                     | (s', Some e) \<Rightarrow>
                         Some (st\<lparr>files := s',
                                  trace := trace st @ [Move file_path destination]\<rparr>))))"

fun process_files :: "folder_index \<Rightarrow> string list \<Rightarrow> run_state \<Rightarrow> run_state option" where
  "process_files existing_folders [] st = Some st"
| "process_files existing_folders (file_path # rest) st =
     (case process_file existing_folders st file_path of
        None \<Rightarrow> None
      | Some st' \<Rightarrow> process_files existing_folders rest st')"

definition markdown_files :: "fs \<Rightarrow> string \<Rightarrow> string list \<Rightarrow> string list" where
  "markdown_files s source_dir filenames =
     map (path_join source_dir)
       (filter (\<lambda>filename. endswith (lower filename) ''.md'' \<and>
                            isfile s (path_join source_dir filename)) filenames)"

text \<open>
  A run: \<open>None\<close> when it does not end, an error when listing the source directory raises,
  otherwise the state after the last document.
\<close>

definition sort_markdown_files ::
  "fs \<Rightarrow> string option \<Rightarrow> string \<Rightarrow> string \<Rightarrow> (os_error + run_state) option" where
  "sort_markdown_files s source_dir_global source_dir root_dir =
     (let existing_folders = get_existing_folders s source_dir_global root_dir in
      case listdir s source_dir of
        Inl e \<Rightarrow> Some (Inl e)
      | Inr filenames \<Rightarrow>
          map_option Inr
            (process_files existing_folders (markdown_files s source_dir filenames)
               \<lparr>files = s, moved_count = 0, trace = []\<rparr>))"

text \<open>
  The tree in which every directory that cannot be listed is empty, the documents that a
  run reads and the sources of the moves it attempts, and a document that has no
  destination or already lies in it.
\<close>

fun prune :: "node \<Rightarrow> node" where
  "prune (File t) = File t"
| "prune (Dir readable w es) =
     (if readable then Dir readable w (map (\<lambda>e. (fst e, prune (snd e))) es)
      else Dir readable w [])"

fun reads :: "event list \<Rightarrow> string list" where
  "reads [] = []"
| "reads (Read p # evs) = p # reads evs"
| "reads (Move src dst # evs) = reads evs"

fun moves :: "event list \<Rightarrow> (string \<times> string) list" where
  "moves [] = []"
| "moves (Read p # evs) = moves evs"
| "moves (Move src dst # evs) = (src, dst) # moves evs"

definition in_place :: "fs \<Rightarrow> folder_index \<Rightarrow> string \<Rightarrow> bool" where
  "in_place s existing_folders file_path =
     (case find_best_matching_folder (extract_tags s file_path) existing_folders of
        None \<Rightarrow> True
      | Some target_folder \<Rightarrow> normpath (dirname file_path) = normpath target_folder)"

section \<open>Example file systems\<close>

text \<open>
  A vault \<open>/r\<close> with a version-control directory, the source directory \<open>inbox\<close>, target
  folders, a directory whose name merely contains \<open>.git\<close> and a directory that cannot be
  listed.
\<close>

definition vault :: fs where
  "vault =
     \<lparr>fs_root = Dir True True
        [(''r'', Dir True True
           [(''.git'', Dir True True [(''hooks'', Dir True True [])]),
            (''inbox'', Dir True True
               [(''note.md'', File (Some ''***Tags:** [[cs]] [[2024-01-01]]'')),
                (''B.MD'', File (Some ''see [[Topic]]'')),
                (''c.txt'', File (Some ''[[cs]]'')),
                (''plain.md'', File (Some ''no tags here'')),
                (''sub.md'', Dir True True []),
                (''sub'', Dir True True [(''d.md'', File (Some ''[[cs]]''))])]),
            (''cs'', Dir True True
               [(''note.md'', File (Some ''[[cs]] old'')),
                (''note_1.md'', File (Some ''older'')),
                (''Topic'', Dir True True [(''note.md'', File (Some ''other''))])]),
            (''x.github'', Dir True True [(''y'', Dir True True [])]),
            (''locked'', Dir False True [(''inner'', Dir True True [])])])],
      fs_cwd = ''/r''\<rparr>"

text \<open>Two folders whose names differ in case only.\<close>

definition twins :: fs where
  "twins =
     \<lparr>fs_root = Dir True True
        [(''r'', Dir True True
           [(''a'', Dir True True [(''CS'', Dir True True [])]),
            (''b'', Dir True True [(''cs'', Dir True True [])])])],
      fs_cwd = ''/''\<rparr>"

text \<open>A root \<open>/r\<close> that cannot be listed, beside a source directory that can.\<close>

definition locked_root :: fs where
  "locked_root =
     \<lparr>fs_root = Dir True True
        [(''r'', Dir False True [(''cs'', Dir True True [])]),
         (''inbox'', Dir True True [(''note.md'', File (Some ''[[cs]]''))])],
      fs_cwd = ''/''\<rparr>"

text \<open>The vault after a run that sorts \<open>inbox\<close>.\<close>

definition vault_sorted :: fs where
  "vault_sorted =
     \<lparr>fs_root = Dir True True
        [(''r'', Dir True True
           [(''.git'', Dir True True [(''hooks'', Dir True True [])]),
            (''inbox'', Dir True True
               [(''c.txt'', File (Some ''[[cs]]'')),
                (''plain.md'', File (Some ''no tags here'')),
                (''sub.md'', Dir True True []),
                (''sub'', Dir True True [(''d.md'', File (Some ''[[cs]]''))])]),
            (''cs'', Dir True True
               [(''note.md'', File (Some ''[[cs]] old'')),
                (''note_1.md'', File (Some ''older'')),
                (''Topic'', Dir True True
                   [(''note.md'', File (Some ''other'')),
                    (''B.MD'', File (Some ''see [[Topic]]''))]),
                (''note_2.md'', File (Some ''***Tags:** [[cs]] [[2024-01-01]]''))]),
            (''x.github'', Dir True True [(''y'', Dir True True [])]),
            (''locked'', Dir False True [(''inner'', Dir True True [])])])],
      fs_cwd = ''/r''\<rparr>"

section \<open>Lemmas on matching and sorting\<close>




























section \<open>Lemmas on the index\<close>










section \<open>Lemmas on the run\<close>

lemma free_suffix_least:
  assumes "i \<le> n"
    and "\<forall>j. i \<le> j \<and> j < n \<longrightarrow> path_exists s (suffixed t b j e)"
    and "\<not> path_exists s (suffixed t b n e)"
  shows "free_suffix s t b e i = Some n"
  using assms
proof (induction "n - i" arbitrary: i)
  case 0
  then have "i = n" by simp
  with 0 show ?case by (subst free_suffix.simps) simp
next
  case (Suc d)
  then have lt: "i < n" by simp
  with Suc.prems have ex: "path_exists s (suffixed t b i e)" by simp
  have "free_suffix s t b e (i + 1) = Some n"
  proof (rule Suc.hyps(1))
    show "d = n - (i + 1)" using Suc.hyps(2) by simp
    show "i + 1 \<le> n" using lt by simp
    show "\<forall>j. i + 1 \<le> j \<and> j < n \<longrightarrow> path_exists s (suffixed t b j e)"
      using Suc.prems(2) by simp
    show "\<not> path_exists s (suffixed t b n e)" by (rule Suc.prems(3))
  qed
  with ex show ?case by (subst free_suffix.simps) simp
qed

lemma destination_collision:
  assumes "path_exists s (path_join target_folder (basename file_path))"
    and "splitext (basename file_path) = (base_name, ext)"
    and "1 \<le> n"
    and "\<forall>i. 1 \<le> i \<and> i < n \<longrightarrow> path_exists s (suffixed target_folder base_name i ext)"
    and "\<not> path_exists s (suffixed target_folder base_name n ext)"
  shows "destination_for s target_folder file_path =
           Some (path_join target_folder (base_name @ ''_'' @ str_nat n @ ext))"
  using assms free_suffix_least [OF assms(3) assms(4) assms(5)]
  by (simp add: destination_for_def suffixed_def)

lemma process_file_in_place:
  "in_place (files st) existing_folders file_path \<Longrightarrow>
     process_file existing_folders st file_path = Some (st\<lparr>trace := trace st @ [Read file_path]\<rparr>)"
  by (auto simp: in_place_def process_file_def Let_def find_best_matching_folder_def
      non_date_tags_def split: option.splits)

lemma process_files_in_place:
  "list_all (in_place (files st) existing_folders) fps \<Longrightarrow>
     process_files existing_folders fps st = Some (st\<lparr>trace := trace st @ map Read fps\<rparr>)"
proof (induction fps arbitrary: st)
  case Nil
  then show ?case by simp
next
  case (Cons fp fps)
  then have "process_file existing_folders st fp = Some (st\<lparr>trace := trace st @ [Read fp]\<rparr>)"
    by (simp add: process_file_in_place)
  moreover have "process_files existing_folders fps (st\<lparr>trace := trace st @ [Read fp]\<rparr>) =
      Some (st\<lparr>trace := trace st @ [Read fp]\<rparr>\<lparr>trace := trace (st\<lparr>trace := trace st @ [Read fp]\<rparr>) @ map Read fps\<rparr>)"
    using Cons.prems by (intro Cons.IH) simp
  ultimately show ?case by simp
qed

lemma moves_map_Read: "moves (map Read fps) = []"
  by (induction fps) simp_all

lemma reads_map_Read: "reads (map Read fps) = fps"
  by (induction fps) simp_all

lemma reads_append: "reads (xs @ ys) = reads xs @ reads ys"
  by (induction xs rule: reads.induct) simp_all

lemma moves_append: "moves (xs @ ys) = moves xs @ moves ys"
  by (induction xs rule: moves.induct) simp_all

lemma process_file_trace:
  assumes "process_file existing_folders st file_path = Some st'"
  shows "trace st' = trace st @ [Read file_path] \<or>
         (\<exists>dst. trace st' = trace st @ [Read file_path, Move file_path dst])"
proof (cases "extract_tags (files st) file_path = []")
  case True
  with assms show ?thesis by (auto simp: process_file_def Let_def)
next
  case tags: False
  show ?thesis
  proof (cases "find_best_matching_folder (extract_tags (files st) file_path) existing_folders")
    case None
    with assms tags show ?thesis by (auto simp: process_file_def Let_def)
  next
    case (Some target_folder)
    show ?thesis
    proof (cases "normpath (dirname file_path) = normpath target_folder")
      case True
      with assms tags Some show ?thesis by (auto simp: process_file_def Let_def)
    next
      case far: False
      show ?thesis
      proof (cases "destination_for (files st) target_folder file_path")
        case None
        with assms tags Some far show ?thesis by (simp add: process_file_def Let_def)
      next
        case dst: (Some destination)
        obtain s' err where mv: "shutil_move (files st) file_path destination = (s', err)"
          by (cases "shutil_move (files st) file_path destination") auto
        from assms tags Some far dst mv show ?thesis
          by (cases err) (auto simp: process_file_def Let_def)
      qed
    qed
  qed
qed

lemma process_files_trace:
  "process_files existing_folders fps st = Some st' \<Longrightarrow>
     reads (trace st') = reads (trace st) @ fps \<and>
     set (map fst (moves (trace st'))) \<subseteq> set (map fst (moves (trace st))) \<union> set fps"
proof (induction fps arbitrary: st)
  case Nil
  then show ?case by simp
next
  case (Cons fp fps)
  then obtain st1 where st1: "process_file existing_folders st fp = Some st1"
    "process_files existing_folders fps st1 = Some st'"
    by (auto split: option.splits)
  from process_file_trace [OF st1(1)]
  have one: "reads (trace st1) = reads (trace st) @ [fp]"
    "set (map fst (moves (trace st1))) \<subseteq> set (map fst (moves (trace st))) \<union> {fp}"
    by (auto simp: reads_append moves_append)
  from Cons.IH [OF st1(2)]
  have two: "reads (trace st') = reads (trace st1) @ fps"
    "set (map fst (moves (trace st'))) \<subseteq> set (map fst (moves (trace st1))) \<union> set fps"
    by blast+
  have "reads (trace st') = reads (trace st) @ fp # fps"
    using one(1) two(1) by simp
  moreover have "set (map fst (moves (trace st'))) \<subseteq>
      set (map fst (moves (trace st))) \<union> set (fp # fps)"
  proof
    fix x assume "x \<in> set (map fst (moves (trace st')))"
    with two(2) have "x \<in> set (map fst (moves (trace st1))) \<or> x \<in> set fps" by blast
    with one(2) have "x \<in> set (map fst (moves (trace st))) \<or> x = fp \<or> x \<in> set fps" by blast
    then show "x \<in> set (map fst (moves (trace st))) \<union> set (fp # fps)" by auto
  qed
  ultimately show ?case by blast
qed

lemma vault_run:
  "sort_markdown_files vault (Some ''/r/inbox'') ''/r/inbox'' ''/r'' =
     Some (Inr \<lparr>files = vault_sorted, moved_count = 2,
       trace = [Read ''/r/inbox/note.md'', Move ''/r/inbox/note.md'' ''/r/cs/note_2.md'',
                Read ''/r/inbox/B.MD'', Move ''/r/inbox/B.MD'' ''/r/cs/Topic/B.MD'',
                Read ''/r/inbox/plain.md'']\<rparr>)"
  by code_simp

lemma is_dir_prune: "is_dir (prune m) = is_dir m"
  by (cases m) simp_all

lemma pruned_names:
  "map fst (filter (\<lambda>e. P (is_dir (snd e))) (map (\<lambda>e. (fst e, prune (snd e))) es)) =
   map fst (filter (\<lambda>e. P (is_dir (snd e))) es)"
  by (induction es) (simp_all add: is_dir_prune)

lemma walk_prune: "os_walk_node top_dir (prune n) = os_walk_node top_dir n"
proof (induction top_dir n rule: os_walk_node.induct)
  case (1 top_dir t)
  then show ?case by simp
next
  case (2 top_dir readable w es)
  show ?case
  proof (cases readable)
    case False
    then show ?thesis by simp
  next
    case True
    have sub: "concat (map (\<lambda>e. if is_dir (snd e)
                   then os_walk_node (path_join top_dir (fst e)) (snd e) else [])
                 (map (\<lambda>e. (fst e, prune (snd e))) es)) =
        concat (map (\<lambda>e. if is_dir (snd e)
                   then os_walk_node (path_join top_dir (fst e)) (snd e) else []) es)"
      using 2 True
    proof (induction es)
      case Nil
      then show ?case by simp
    next
      case (Cons x xs)
      have "concat (map (\<lambda>e. if is_dir (snd e)
                   then os_walk_node (path_join top_dir (fst e)) (snd e) else [])
                 (map (\<lambda>e. (fst e, prune (snd e))) xs)) =
        concat (map (\<lambda>e. if is_dir (snd e)
                   then os_walk_node (path_join top_dir (fst e)) (snd e) else []) xs)"
        by (rule Cons.IH) (use Cons.prems in auto)
      moreover have "is_dir (snd x) \<Longrightarrow>
          os_walk_node (path_join top_dir (fst x)) (prune (snd x)) =
          os_walk_node (path_join top_dir (fst x)) (snd x)"
        using Cons.prems by simp
      ultimately show ?case by (simp add: is_dir_prune)
    qed
    have "os_walk_node top_dir (prune (Dir readable w es)) =
        (top_dir, map fst (filter (\<lambda>e. is_dir (snd e)) (map (\<lambda>e. (fst e, prune (snd e))) es)),
                  map fst (filter (\<lambda>e. \<not> is_dir (snd e)) (map (\<lambda>e. (fst e, prune (snd e))) es))) #
        concat (map (\<lambda>e. if is_dir (snd e)
                   then os_walk_node (path_join top_dir (fst e)) (snd e) else [])
                 (map (\<lambda>e. (fst e, prune (snd e))) es))"
      using True by simp
    also have "\<dots> = os_walk_node top_dir (Dir readable w es)"
      unfolding sub pruned_names [where P = "\<lambda>b. b"] pruned_names [where P = "\<lambda>b. \<not> b"]
      using True by simp
    finally show ?thesis .
  qed
qed

lemma find_best_empty_index: "find_best_matching_folder tags [] = None"
  by (simp add: find_best_matching_folder_def find_matches_def)

lemma walk_unreadable:
  "scandir (map_option snd (resolve s root_dir)) = Inl e \<Longrightarrow> os_walk s root_dir = []"
  by (auto simp: scandir_def os_walk_def split: option.splits node.splits if_splits)

lemma in_place_empty_index: "in_place s [] file_path"
  by (simp add: in_place_def find_best_empty_index)

section \<open>Lemmas on the tag patterns\<close>



lemma first_of_single: "first_of F [x] = first (F x)"
  by (simp add: first_of_def)












































section \<open>Best-Match Selector: the deepest exact match\<close>





section \<open>Date-Tag Filter\<close>




section \<open>Folder Index Builder\<close>


text \<open>
  Claim C6, at the vault with \<open>inbox\<close> as the source directory. The builder tests the
  directory being walked, not the folder it indexes: the version-control directory and the
  source directory are both entries of the index. Only the folders listed directly in them
  (\<open>hooks\<close>, \<open>sub\<close>, \<open>sub.md\<close>) are left out, as are those of \<open>x.github\<close>, whose path merely
  contains \<open>.git\<close>.
\<close>

theorem index_keeps_git_and_source:
  "get_existing_folders vault (Some ''/r/inbox'') ''/r'' =
     [(''.git'', \<lparr>path = ''/r/.git'', depth = 1\<rparr>),
      (''inbox'', \<lparr>path = ''/r/inbox'', depth = 1\<rparr>),
      (''cs'', \<lparr>path = ''/r/cs'', depth = 1\<rparr>),
      (''x.github'', \<lparr>path = ''/r/x.github'', depth = 1\<rparr>),
      (''locked'', \<lparr>path = ''/r/locked'', depth = 1\<rparr>),
      (''topic'', \<lparr>path = ''/r/cs/Topic'', depth = 2\<rparr>)]"
  by code_simp

text \<open>
  Claim C7, as amended. The builder never fails. When the root cannot be listed the index
  is empty and a run goes on with it: every document is read, none finds a destination and
  nothing is moved. Below the root, the index is that of the tree in which every directory
  that cannot be listed is empty: nothing beneath such a directory is indexed, and the walk
  goes on.
\<close>

theorem builder_never_fails:
  "(scandir (map_option snd (resolve s root_dir)) = Inl e \<longrightarrow>
      get_existing_folders s g root_dir = [] \<and>
      (listdir s source_dir = Inr filenames \<longrightarrow>
         sort_markdown_files s g source_dir root_dir =
           Some (Inr \<lparr>files = s, moved_count = 0,
                      trace = map Read (markdown_files s source_dir filenames)\<rparr>)))
   \<and> (resolve s root_dir = Some (place, n) \<longrightarrow>
      get_existing_folders s g root_dir =
        index_walk s g root_dir (os_walk_node root_dir (prune n)))"
proof (intro conjI impI)
  assume "scandir (map_option snd (resolve s root_dir)) = Inl e"
  then show "get_existing_folders s g root_dir = []"
    by (simp add: get_existing_folders_def walk_unreadable index_walk_def)
next
  assume e: "scandir (map_option snd (resolve s root_dir)) = Inl e"
    and l: "listdir s source_dir = Inr filenames"
  have ix: "get_existing_folders s g root_dir = []"
    using e by (simp add: get_existing_folders_def walk_unreadable index_walk_def)
  have "list_all (in_place (files \<lparr>files = s, moved_count = 0, trace = []\<rparr>) [])
      (markdown_files s source_dir filenames)"
    by (simp add: list_all_iff in_place_empty_index)
  from process_files_in_place [OF this] l ix
  show "sort_markdown_files s g source_dir root_dir =
           Some (Inr \<lparr>files = s, moved_count = 0,
                      trace = map Read (markdown_files s source_dir filenames)\<rparr>)"
    by (simp add: sort_markdown_files_def)
next
  assume "resolve s root_dir = Some (place, n)"
  then show "get_existing_folders s g root_dir =
        index_walk s g root_dir (os_walk_node root_dir (prune n))"
    by (simp add: get_existing_folders_def os_walk_def walk_prune)
qed

text \<open>
  The claim as stated fails twice: with a root that cannot be listed the builder returns an
  empty index and the run ends normally, and a directory below the root that cannot be
  listed keeps its own entry in the index.
\<close>

theorem builder_never_fails_counterexample:
  "listdir locked_root ''/r'' = Inl PermissionError \<and>
   get_existing_folders locked_root (Some ''/inbox'') ''/r'' = [] \<and>
   sort_markdown_files locked_root (Some ''/inbox'') ''/inbox'' ''/r'' =
     Some (Inr \<lparr>files = locked_root, moved_count = 0, trace = [Read ''/inbox/note.md'']\<rparr>) \<and>
   listdir vault ''/r/locked'' = Inl PermissionError \<and>
   map_of (get_existing_folders vault (Some ''/r/inbox'') ''/r'') ''locked'' =
     Some \<lparr>path = ''/r/locked'', depth = 1\<rparr>"
  by code_simp

theorem builder_never_fails_witness:
  "get_existing_folders locked_root (Some ''/inbox'') ''/r'' = [] \<and>
   sort_markdown_files locked_root (Some ''/inbox'') ''/inbox'' ''/r'' =
     Some (Inr \<lparr>files = locked_root, moved_count = 0, trace = [Read ''/inbox/note.md'']\<rparr>) \<and>
   map fst (get_existing_folders vault None ''/r'') =
     [''.git'', ''inbox'', ''cs'', ''x.github'', ''locked'', ''sub.md'', ''sub'', ''topic'']"
proof -
  have e: "scandir (map_option snd (resolve locked_root ''/r'')) = Inl PermissionError"
    by code_simp
  have l: "listdir locked_root ''/inbox'' = Inr [''note.md'']" by code_simp
  have m: "markdown_files locked_root ''/inbox'' [''note.md''] = [''/inbox/note.md'']"
    by code_simp
  obtain n where n: "resolve vault ''/r'' = Some ([''r''], n)"
    and w: "map fst (index_walk vault None ''/r'' (os_walk_node ''/r'' (prune n))) =
     [''.git'', ''inbox'', ''cs'', ''x.github'', ''locked'', ''sub.md'', ''sub'', ''topic'']"
  proof
    show "resolve vault ''/r'' = Some ([''r''], the (node_at (fs_root vault) [''r'']))"
      by code_simp
    show "map fst (index_walk vault None ''/r''
        (os_walk_node ''/r'' (prune (the (node_at (fs_root vault) [''r'']))))) =
     [''.git'', ''inbox'', ''cs'', ''x.github'', ''locked'', ''sub.md'', ''sub'', ''topic'']"
      by code_simp
  qed
  from builder_never_fails [of locked_root "''/r''" PermissionError "Some ''/inbox''" "''/inbox''"
      "[''note.md'']"] e l m
  have "get_existing_folders locked_root (Some ''/inbox'') ''/r'' = []"
    "sort_markdown_files locked_root (Some ''/inbox'') ''/inbox'' ''/r'' =
     Some (Inr \<lparr>files = locked_root, moved_count = 0, trace = [Read ''/inbox/note.md'']\<rparr>)"
    by simp_all
  moreover from builder_never_fails [of vault "''/r''" _ None _ _ "[''r'']" n] n w
  have "map fst (get_existing_folders vault None ''/r'') =
     [''.git'', ''inbox'', ''cs'', ''x.github'', ''locked'', ''sub.md'', ''sub'', ''topic'']"
    by simp
  ultimately show ?thesis by simp
qed

section \<open>Relocator\<close>

text \<open>
  Claim C8. When the destination folder already holds an entry with the name of the
  document, and the names with the suffixes \<open>_1\<close> to \<open>_(n-1)\<close> before the extension are taken
  while the one with \<open>_n\<close> is free, the destination is the name with \<open>_n\<close>, and the move of
  the document is attempted to that name. With \<open>note.md\<close> present the result is \<open>note_1.md\<close>;
  with \<open>note.md\<close> and \<open>note_1.md\<close> present it is \<open>note_2.md\<close>.
\<close>

theorem collision_suffix:
  assumes "path_exists s (path_join target_folder (basename file_path))"
    and "splitext (basename file_path) = (base_name, ext)"
    and "1 \<le> n"
    and "\<forall>i. 1 \<le> i \<and> i < n \<longrightarrow> path_exists s (suffixed target_folder base_name i ext)"
    and "\<not> path_exists s (suffixed target_folder base_name n ext)"
  shows "destination_for s target_folder file_path =
           Some (path_join target_folder (base_name @ ''_'' @ str_nat n @ ext))
     \<and> (files st = s \<and> extract_tags s file_path \<noteq> [] \<and>
        find_best_matching_folder (extract_tags s file_path) existing_folders = Some target_folder \<and>
        normpath (dirname file_path) \<noteq> normpath target_folder \<longrightarrow>
        (\<exists>st'. process_file existing_folders st file_path = Some st' \<and>
           trace st' = trace st @ [Read file_path,
             Move file_path (path_join target_folder (base_name @ ''_'' @ str_nat n @ ext))]))"
proof
  show d: "destination_for s target_folder file_path =
           Some (path_join target_folder (base_name @ ''_'' @ str_nat n @ ext))"
    by (rule destination_collision [OF assms])
  show "files st = s \<and> extract_tags s file_path \<noteq> [] \<and>
        find_best_matching_folder (extract_tags s file_path) existing_folders = Some target_folder \<and>
        normpath (dirname file_path) \<noteq> normpath target_folder \<longrightarrow>
        (\<exists>st'. process_file existing_folders st file_path = Some st' \<and>
           trace st' = trace st @ [Read file_path,
             Move file_path (path_join target_folder (base_name @ ''_'' @ str_nat n @ ext))])"
  proof (intro impI, elim conjE)
    assume a: "files st = s" "extract_tags s file_path \<noteq> []"
      "find_best_matching_folder (extract_tags s file_path) existing_folders = Some target_folder"
      "normpath (dirname file_path) \<noteq> normpath target_folder"
    obtain s' err where mv: "shutil_move s file_path
        (path_join target_folder (base_name @ ''_'' @ str_nat n @ ext)) = (s', err)"
      by (cases "shutil_move s file_path
        (path_join target_folder (base_name @ ''_'' @ str_nat n @ ext))") auto
    show "\<exists>st'. process_file existing_folders st file_path = Some st' \<and>
           trace st' = trace st @ [Read file_path,
             Move file_path (path_join target_folder (base_name @ ''_'' @ str_nat n @ ext))]"
      using a d mv by (cases err) (simp_all add: process_file_def Let_def)
  qed
qed

theorem collision_suffix_witness:
  "destination_for vault ''/r/cs/Topic'' ''/r/inbox/note.md'' = Some ''/r/cs/Topic/note_1.md'' \<and>
   destination_for vault ''/r/cs'' ''/r/inbox/note.md'' = Some ''/r/cs/note_2.md''"
proof -
  have sp: "splitext (basename ''/r/inbox/note.md'') = (''note'', ''.md'')" by code_simp
  have a0: "path_exists vault (path_join ''/r/cs/Topic'' (basename ''/r/inbox/note.md''))" by code_simp
  have a1: "\<forall>i. 1 \<le> i \<and> i < (1::nat) \<longrightarrow> path_exists vault (suffixed ''/r/cs/Topic'' ''note'' i ''.md'')"
    by simp
  have a2: "\<not> path_exists vault (suffixed ''/r/cs/Topic'' ''note'' 1 ''.md'')" by code_simp
  have b0: "path_exists vault (path_join ''/r/cs'' (basename ''/r/inbox/note.md''))" by code_simp
  have "path_exists vault (suffixed ''/r/cs'' ''note'' 1 ''.md'')" by code_simp
  then have b1: "\<forall>i. 1 \<le> i \<and> i < (2::nat) \<longrightarrow> path_exists vault (suffixed ''/r/cs'' ''note'' i ''.md'')"
    by (auto simp: le_less_Suc_eq numeral_2_eq_2)
  have b2: "\<not> path_exists vault (suffixed ''/r/cs'' ''note'' 2 ''.md'')" by code_simp
  have s1: "str_nat 1 = ''1''" "str_nat 2 = ''2''" by code_simp+
  have p: "path_join ''/r/cs/Topic'' (''note'' @ ''_'' @ ''1'' @ ''.md'') = ''/r/cs/Topic/note_1.md''"
    "path_join ''/r/cs'' (''note'' @ ''_'' @ ''2'' @ ''.md'') = ''/r/cs/note_2.md''"
    by code_simp+
  from collision_suffix [OF a0 sp _ a1 a2] collision_suffix [OF b0 sp _ b1 b2]
  show ?thesis unfolding s1 p by simp
qed

text \<open>
  Claim C9. A document whose directory equals the selected folder after normalisation is
  read and not moved. On a tree in which every document of the source directory has no
  destination or already lies in it, a run moves nothing: it returns the file system
  unchanged with a count of zero and a trace of reads only. The vault after a first run is
  such a tree.
\<close>

theorem already_in_place_no_move:
  "(extract_tags (files st) file_path \<noteq> [] \<and>
    find_best_matching_folder (extract_tags (files st) file_path) existing_folders = Some target_folder \<and>
    normpath (dirname file_path) = normpath target_folder \<longrightarrow>
      process_file existing_folders st file_path = Some (st\<lparr>trace := trace st @ [Read file_path]\<rparr>))
   \<and> (listdir s source_dir = Inr filenames \<and>
      list_all (in_place s (get_existing_folders s g root_dir)) (markdown_files s source_dir filenames) \<longrightarrow>
      sort_markdown_files s g source_dir root_dir =
        Some (Inr \<lparr>files = s, moved_count = 0,
                   trace = map Read (markdown_files s source_dir filenames)\<rparr>)
      \<and> moves (map Read (markdown_files s source_dir filenames)) = [])"
proof (intro conjI impI)
  assume "extract_tags (files st) file_path \<noteq> [] \<and>
    find_best_matching_folder (extract_tags (files st) file_path) existing_folders = Some target_folder \<and>
    normpath (dirname file_path) = normpath target_folder"
  then have "in_place (files st) existing_folders file_path" by (simp add: in_place_def)
  then show "process_file existing_folders st file_path = Some (st\<lparr>trace := trace st @ [Read file_path]\<rparr>)"
    by (rule process_file_in_place)
next
  assume a: "listdir s source_dir = Inr filenames \<and>
      list_all (in_place s (get_existing_folders s g root_dir)) (markdown_files s source_dir filenames)"
  then have "process_files (get_existing_folders s g root_dir) (markdown_files s source_dir filenames)
       \<lparr>files = s, moved_count = 0, trace = []\<rparr> =
     Some (\<lparr>files = s, moved_count = 0, trace = []\<rparr>\<lparr>trace := trace \<lparr>files = s, moved_count = 0, trace = []\<rparr> @ map Read (markdown_files s source_dir filenames)\<rparr>)"
    by (intro process_files_in_place) simp
  with a show "sort_markdown_files s g source_dir root_dir =
        Some (Inr \<lparr>files = s, moved_count = 0,
                   trace = map Read (markdown_files s source_dir filenames)\<rparr>)"
    by (simp add: sort_markdown_files_def)
next
  show "moves (map Read (markdown_files s source_dir filenames)) = []" by (rule moves_map_Read)
qed

theorem already_in_place_no_move_witness:
  "sort_markdown_files vault (Some ''/r/inbox'') ''/r/inbox'' ''/r'' =
     Some (Inr \<lparr>files = vault_sorted, moved_count = 2,
       trace = [Read ''/r/inbox/note.md'', Move ''/r/inbox/note.md'' ''/r/cs/note_2.md'',
                Read ''/r/inbox/B.MD'', Move ''/r/inbox/B.MD'' ''/r/cs/Topic/B.MD'',
                Read ''/r/inbox/plain.md'']\<rparr>) \<and>
   sort_markdown_files vault_sorted (Some ''/r/inbox'') ''/r/inbox'' ''/r'' =
     Some (Inr \<lparr>files = vault_sorted, moved_count = 0, trace = [Read ''/r/inbox/plain.md'']\<rparr>) \<and>
   sort_markdown_files vault (Some ''/r/cs'') ''/r/cs'' ''/r'' =
     Some (Inr \<lparr>files = vault, moved_count = 0,
       trace = [Read ''/r/cs/note.md'', Read ''/r/cs/note_1.md'']\<rparr>)"
proof -
  have l1: "listdir vault_sorted ''/r/inbox'' = Inr [''c.txt'', ''plain.md'', ''sub.md'', ''sub'']"
    by code_simp
  have m1: "markdown_files vault_sorted ''/r/inbox'' [''c.txt'', ''plain.md'', ''sub.md'', ''sub''] =
      [''/r/inbox/plain.md'']"
    by code_simp
  have p1: "list_all (in_place vault_sorted (get_existing_folders vault_sorted (Some ''/r/inbox'') ''/r''))
      [''/r/inbox/plain.md'']"
    by code_simp
  have l2: "listdir vault ''/r/cs'' = Inr [''note.md'', ''note_1.md'', ''Topic'']"
    by code_simp
  have m2: "markdown_files vault ''/r/cs'' [''note.md'', ''note_1.md'', ''Topic''] =
      [''/r/cs/note.md'', ''/r/cs/note_1.md'']"
    by code_simp
  have p2: "list_all (in_place vault (get_existing_folders vault (Some ''/r/cs'') ''/r''))
      [''/r/cs/note.md'', ''/r/cs/note_1.md'']"
    by code_simp
  have t: "extract_tags vault ''/r/cs/note.md'' = [''cs'']" by code_simp
  from already_in_place_no_move [of _ _ _ _ vault_sorted "''/r/inbox''"
      "[''c.txt'', ''plain.md'', ''sub.md'', ''sub'']" "Some ''/r/inbox''" "''/r''"] l1 p1
  have r1: "sort_markdown_files vault_sorted (Some ''/r/inbox'') ''/r/inbox'' ''/r'' =
     Some (Inr \<lparr>files = vault_sorted, moved_count = 0, trace = [Read ''/r/inbox/plain.md'']\<rparr>)"
    unfolding m1 by simp
  from already_in_place_no_move [of _ _ _ _ vault "''/r/cs''"
      "[''note.md'', ''note_1.md'', ''Topic'']" "Some ''/r/cs''" "''/r''"] l2 p2
  have r2: "sort_markdown_files vault (Some ''/r/cs'') ''/r/cs'' ''/r'' =
     Some (Inr \<lparr>files = vault, moved_count = 0,
       trace = [Read ''/r/cs/note.md'', Read ''/r/cs/note_1.md'']\<rparr>)"
    unfolding m2 by simp
  from vault_run r1 r2 show ?thesis by simp
qed

text \<open>
  Claim C10. The documents a run reads are, in the order of the listing, exactly the
  entries of the source directory whose lower-cased name ends in \<open>.md\<close> and that are
  regular files, under their joined paths; every move it attempts has one of them as its
  source.
\<close>

theorem only_markdown_documents:
  assumes "sort_markdown_files s g source_dir root_dir = Some (Inr st)"
  shows "\<exists>filenames. listdir s source_dir = Inr filenames \<and>
     reads (trace st) = markdown_files s source_dir filenames \<and>
     set (map fst (moves (trace st))) \<subseteq> set (markdown_files s source_dir filenames) \<and>
     (\<forall>p. (p \<in> set (markdown_files s source_dir filenames)) =
        (\<exists>filename \<in> set filenames. p = path_join source_dir filename \<and>
           endswith (lower filename) ''.md'' \<and> isfile s p))"
proof -
  from assms obtain filenames where l: "listdir s source_dir = Inr filenames"
    by (cases "listdir s source_dir") (auto simp: sort_markdown_files_def)
  with assms have "process_files (get_existing_folders s g root_dir)
      (markdown_files s source_dir filenames) \<lparr>files = s, moved_count = 0, trace = []\<rparr> = Some st"
    by (auto simp: sort_markdown_files_def)
  from process_files_trace [OF this]
  have "reads (trace st) = markdown_files s source_dir filenames"
    "set (map fst (moves (trace st))) \<subseteq> set (markdown_files s source_dir filenames)"
    by simp_all
  moreover have "\<forall>p. (p \<in> set (markdown_files s source_dir filenames)) =
        (\<exists>filename \<in> set filenames. p = path_join source_dir filename \<and>
           endswith (lower filename) ''.md'' \<and> isfile s p)"
    by (auto simp: markdown_files_def)
  ultimately show ?thesis using l by blast
qed

theorem only_markdown_documents_witness:
  "markdown_files vault ''/r/inbox'' [''note.md'', ''B.MD'', ''c.txt'', ''plain.md'', ''sub.md'', ''sub''] =
     [''/r/inbox/note.md'', ''/r/inbox/B.MD'', ''/r/inbox/plain.md'']"
proof -
  have l: "listdir vault ''/r/inbox'' =
      Inr [''note.md'', ''B.MD'', ''c.txt'', ''plain.md'', ''sub.md'', ''sub'']"
    by code_simp
  from only_markdown_documents [OF vault_run] l
  have "reads [Read ''/r/inbox/note.md'', Move ''/r/inbox/note.md'' ''/r/cs/note_2.md'',
                Read ''/r/inbox/B.MD'', Move ''/r/inbox/B.MD'' ''/r/cs/Topic/B.MD'',
                Read ''/r/inbox/plain.md''] =
     markdown_files vault ''/r/inbox'' [''note.md'', ''B.MD'', ''c.txt'', ''plain.md'', ''sub.md'', ''sub'']"
    by auto
  then show ?thesis by simp
qed

section \<open>Tag Extractor\<close>




end
